theory Spec2Isabelle
  imports Complex_Main "HOL-Library.Multiset" "HOL-Library.Signed_Division"
begin

section \<open>Numeric model\<close>

text \<open>
  The program is \<^verbatim>\<open>fourier_transform.cpp\<close>: a recursive radix-2 Fourier transform
  (class \<^verbatim>\<open>FourierTransform\<close>) and a trend/seasonal/residual decomposition built on
  it (class \<^verbatim>\<open>SeasonalDecomposition\<close>).

  The embedding works in exact arithmetic: a \<^verbatim>\<open>double\<close> is a \<^typ>\<open>real\<close>, a
  \<^verbatim>\<open>complex<double>\<close> is a \<^typ>\<open>complex\<close>, \<^verbatim>\<open>polar(1.0, t)\<close> is \<^term>\<open>cis t\<close>,
  \<^verbatim>\<open>conj\<close> is \<^term>\<open>cnj\<close> and \<^verbatim>\<open>abs\<close> of a complex number is \<^term>\<open>cmod\<close>.
  Rounding, infinities and NaN are outside this model; the one place where the source can
  divide by a zero count (\<^verbatim>\<open>extractTrend\<close>) is a guarded division with an error branch.
  An \<^verbatim>\<open>int\<close> is an unbounded \<^typ>\<open>int\<close> and a \<^verbatim>\<open>size_t\<close> a \<^typ>\<open>nat\<close>: the model
  agrees with the 32-bit code as long as vector sizes and the doubled \<^verbatim>\<open>padded_size\<close>
  stay in the range of \<^verbatim>\<open>int\<close>. Integer division \<^verbatim>\<open>/\<close> on \<^verbatim>\<open>int\<close> truncates toward
  zero, which is \<open>sdiv\<close>. A \<^verbatim>\<open>vector\<close> is a list; a loop that assigns \<^verbatim>\<open>v[i]\<close> is a
  \<^term>\<open>fold\<close> of list updates over the index range.
\<close>

definition PI :: real where
  "PI = 314159265358979323846 / 100000000000000000000"

datatype error = NotANumber

definition fdiv :: "real \<Rightarrow> real \<Rightarrow> error + real" where
  "fdiv a b = (if b = 0 then Inl NotANumber else Inr (a / b))"

section \<open>class FourierTransform\<close>

record FourierTransform =
  ft_data :: "complex list"
  ft_n :: int

text \<open>The constructor: \<^verbatim>\<open>n = input.size(); data.resize(n); data[i] = complex(input[i], 0.0)\<close>.\<close>

definition FourierTransform_new :: "real list \<Rightarrow> FourierTransform" where
  "FourierTransform_new input =
     (let n = int (length input);
          data0 = replicate (nat n) (0 :: complex)
      in \<lparr>ft_data = fold (\<lambda>i d. d[i := Complex (input ! i) 0]) [0..<nat n] data0,
          ft_n = n\<rparr>)"

text \<open>
  The divide step of \<^verbatim>\<open>fft\<close>: two vectors of \<^verbatim>\<open>N/2\<close> elements, filled from the even
  and the odd positions of \<^verbatim>\<open>x\<close>.
\<close>

definition fft_even :: "complex list \<Rightarrow> complex list" where
  "fft_even x =
     (let h = length x div 2
      in fold (\<lambda>i e. e[i := x ! (i * 2)]) [0..<h] (replicate h 0))"

definition fft_odd :: "complex list \<Rightarrow> complex list" where
  "fft_odd x =
     (let h = length x div 2
      in fold (\<lambda>i e. e[i := x ! (i * 2 + 1)]) [0..<h] (replicate h 0))"

text \<open>
  The combine step: for \<^verbatim>\<open>k < N/2\<close>,
  \<^verbatim>\<open>t = polar(1.0, -2 * PI * k / N) * odd[k]; x[k] = even[k] + t; x[k + N/2] = even[k] - t\<close>.
\<close>

definition twiddle :: "nat \<Rightarrow> nat \<Rightarrow> complex" where
  "twiddle N k = cis (- 2 * PI * real k / real N)"

definition fft_combine :: "complex list \<Rightarrow> complex list \<Rightarrow> complex list \<Rightarrow> complex list" where
  "fft_combine x ev od =
     (let N = length x; h = N div 2
      in fold (\<lambda>k y. let t = twiddle N k * od ! k
                      in (y[k := ev ! k + t])[k + h := ev ! k - t]) [0..<h] x)"

lemma length_fold_update:
  "length (fold (\<lambda>i e. e[i := f i e]) js v) = length v"
  by (induction js arbitrary: v) simp_all

lemma length_fft_even [simp]: "length (fft_even x) = length x div 2"
  by (simp add: fft_even_def Let_def length_fold_update)

lemma length_fft_odd [simp]: "length (fft_odd x) = length x div 2"
  by (simp add: fft_odd_def Let_def length_fold_update)

text \<open>
  \<^verbatim>\<open>fft\<close> itself. The source updates \<^verbatim>\<open>x\<close> in place; the model returns the new contents.
  No length is rejected: for a length that is not a power of two the halves drop the last
  element of an odd-length buffer and the combine loop leaves it untouched.
\<close>

function fft :: "complex list \<Rightarrow> complex list" where
  "fft x =
     (if length x \<le> 1 then x
      else fft_combine x (fft (fft_even x)) (fft (fft_odd x)))"
  by pat_completeness auto
termination
  by (relation "measure length") auto

declare fft.simps [simp del]

text \<open>
  \<^verbatim>\<open>ifft\<close>: conjugate every sample, run \<^verbatim>\<open>fft\<close>, then conjugate and divide every sample
  by \<^verbatim>\<open>complex(N, 0)\<close>.
\<close>

definition ifft :: "complex list \<Rightarrow> complex list" where
  "ifft x =
     (let N = length x;
          x1 = fold (\<lambda>i y. y[i := cnj (y ! i)]) [0..<N] x;
          x2 = fft x1
      in fold (\<lambda>i y. y[i := cnj (y ! i) / Complex (real N) 0]) [0..<N] x2)"

text \<open>
  The padding loop of \<^verbatim>\<open>compute\<close>: \<^verbatim>\<open>while (padded_size < n) padded_size *= 2\<close>.
  As a function of an arbitrary start value the loop need not end (start \<open>0\<close>), so it
  returns an option and \<open>None\<close> stands for not returning.
\<close>

partial_function (option) pad_loop :: "int \<Rightarrow> int \<Rightarrow> int option" where
  "pad_loop padded_size n =
     (if padded_size < n then pad_loop (padded_size * 2) n else Some padded_size)"

definition compute :: "FourierTransform \<Rightarrow> FourierTransform option" where
  "compute ft =
     (case pad_loop 1 (ft_n ft) of
        None \<Rightarrow> None
      | Some padded_size \<Rightarrow>
          (let n = nat (ft_n ft);
               p0 = replicate (nat padded_size) (0 :: complex);
               p1 = fold (\<lambda>i p. p[i := ft_data ft ! i]) [0..<n] p0;
               p2 = fold (\<lambda>i p. p[i := Complex 0 0]) [n..<nat padded_size] p1
           in Some (ft\<lparr>ft_data := fft p2\<rparr>)))"

definition getMagnitudeSpectrum :: "FourierTransform \<Rightarrow> real list" where
  "getMagnitudeSpectrum ft =
     (let m = length (ft_data ft) div 2
      in fold (\<lambda>i mag. mag[i := cmod (ft_data ft ! i)]) [0..<m] (replicate m 0))"

text \<open>
  \<^verbatim>\<open>getDominantFrequencies\<close> calls \<^verbatim>\<open>std::sort\<close> with the comparator
  \<^verbatim>\<open>a.second > b.second\<close>. \<^verbatim>\<open>std::sort\<close> is the standard library's, not this
  repository's, and the order in which it leaves elements that compare equal is not fixed
  by its contract. The model therefore takes the sorting routine as the parameter
  \<open>srt\<close>; \<open>std_sort_contract\<close> is what the C++ standard promises of it: the result is a
  permutation of the input and no later element precedes an earlier one under the
  comparator. The routine the program runs when built with the GNU C++ library is
  transcribed further down as \<open>gnu_sort\<close>.
\<close>

type_synonym freq = "int \<times> real"


definition getDominantFrequencies ::
    "(freq list \<Rightarrow> freq list) \<Rightarrow> FourierTransform \<Rightarrow> int \<Rightarrow> freq list" where
  "getDominantFrequencies srt ft top_k =
     (let magnitude = getMagnitudeSpectrum ft;
          freq_mag = fold (\<lambda>i fm. fm @ [(int i, magnitude ! i)]) [1..<length magnitude] [];
          sorted_fm = srt freq_mag
      in fold (\<lambda>i result. result @ [sorted_fm ! i])
           [0..<nat (min top_k (int (length sorted_fm)))] [])"


section \<open>class SeasonalDecomposition\<close>

record SeasonalDecomposition =
  original :: "real list"
  trend :: "real list"
  seasonal :: "real list"
  residual :: "real list"
  period :: int

text \<open>
  The constructor copies the data and the period and resizes the three result vectors to
  the length of the data (\<^verbatim>\<open>resize\<close> value-initialises, so they hold zeros). Nothing
  is checked.
\<close>

definition SeasonalDecomposition_new :: "real list \<Rightarrow> int \<Rightarrow> SeasonalDecomposition" where
  "SeasonalDecomposition_new xs period_length =
     \<lparr>original = xs,
      trend = replicate (length xs) 0,
      seasonal = replicate (length xs) 0,
      residual = replicate (length xs) 0,
      period = period_length\<rparr>"

text \<open>
  The inner loop of \<^verbatim>\<open>extractTrend\<close> at index \<open>i\<close>: for \<open>j\<close> from \<open>-(window/2)\<close> to
  \<open>window/2\<close>, \<^verbatim>\<open>idx = i + j\<close> is added to the running sum and count when it is a valid index.
\<close>

definition trend_window :: "real list \<Rightarrow> int \<Rightarrow> nat \<Rightarrow> real \<times> int" where
  "trend_window xs window i =
     fold (\<lambda>j (wsum, wcount).
             let idx = int i + j
             in if idx \<ge> 0 \<and> idx < int (length xs)
                then (wsum + xs ! nat idx, wcount + 1)
                else (wsum, wcount))
          [- (window sdiv 2) .. window sdiv 2] (0, 0)"

text \<open>
  The outer loop: \<^verbatim>\<open>trend[i] = sum / count\<close>. A zero count would make the quotient a
  NaN; the model stops there with \<open>Inl NotANumber\<close>.
\<close>

fun trend_loop :: "real list \<Rightarrow> int \<Rightarrow> nat list \<Rightarrow> real list \<Rightarrow> error + real list" where
  "trend_loop xs window [] tr = Inr tr"
| "trend_loop xs window (i # js) tr =
     (case trend_window xs window i of
        (wsum, wcount) \<Rightarrow>
          (case fdiv wsum (real_of_int wcount) of
             Inl e \<Rightarrow> Inl e
           | Inr q \<Rightarrow> trend_loop xs window js (tr[i := q])))"

definition extractTrend :: "SeasonalDecomposition \<Rightarrow> error + SeasonalDecomposition" where
  "extractTrend sd =
     (let window = period sd
      in case trend_loop (original sd) window [0..<length (original sd)] (trend sd) of
           Inl e \<Rightarrow> Inl e
         | Inr tr \<Rightarrow> Inr (sd\<lparr>trend := tr\<rparr>))"

text \<open>
  \<^verbatim>\<open>extractSeasonal\<close>: detrend, transform, take the three dominant bins, rebuild a
  cosine sum and subtract its mean. The division \<^verbatim>\<open>seasonal_mean /= seasonal.size()\<close>
  has a zero divisor only for an empty \<^verbatim>\<open>seasonal\<close>, where the quotient is never used.
\<close>

definition seasonal_at :: "freq list \<Rightarrow> nat \<Rightarrow> nat \<Rightarrow> real" where
  "seasonal_at dominant sz i =
     fold (\<lambda>(k, m) s. let magnitude = m / real sz
                       in s + magnitude * cos (2 * PI * real_of_int k * real i / real sz))
          dominant 0"

definition extractSeasonal ::
    "(freq list \<Rightarrow> freq list) \<Rightarrow> SeasonalDecomposition \<Rightarrow> SeasonalDecomposition option" where
  "extractSeasonal srt sd =
     (let sz = length (original sd);
          detrended = fold (\<lambda>i d. d[i := original sd ! i - trend sd ! i]) [0..<sz]
                        (replicate sz 0)
      in case compute (FourierTransform_new detrended) of
           None \<Rightarrow> None
         | Some ft \<Rightarrow>
             (let dominant = getDominantFrequencies srt ft 3;
                  ssize = length (seasonal sd);
                  s1 = fold (\<lambda>i s. s[i := seasonal_at dominant ssize i]) [0..<ssize] (seasonal sd);
                  seasonal_mean = fold (\<lambda>val m. m + val) s1 0 / real ssize;
                  s2 = map (\<lambda>val. val - seasonal_mean) s1
              in Some (sd\<lparr>seasonal := s2\<rparr>)))"

definition extractResidual :: "SeasonalDecomposition \<Rightarrow> SeasonalDecomposition" where
  "extractResidual sd =
     sd\<lparr>residual := fold (\<lambda>i r. r[i := original sd ! i - trend sd ! i - seasonal sd ! i])
                       [0..<length (original sd)] (residual sd)\<rparr>"

definition decompose ::
    "(freq list \<Rightarrow> freq list) \<Rightarrow> SeasonalDecomposition
       \<Rightarrow> (error + SeasonalDecomposition) option" where
  "decompose srt sd =
     (case extractTrend sd of
        Inl e \<Rightarrow> Some (Inl e)
      | Inr sd1 \<Rightarrow>
          (case extractSeasonal srt sd1 of
             None \<Rightarrow> None
           | Some sd2 \<Rightarrow> Some (Inr (extractResidual sd2))))"

section \<open>\<^verbatim>\<open>std::sort\<close> in the GNU C++ library\<close>

text \<open>
  What \<^verbatim>\<open>std::sort\<close> does to the vector of (bin, magnitude) pairs depends on the
  library the program is built with. The definitions of this section transcribe the
  routine of the GNU C++ library (\<^verbatim>\<open>bits/stl_algo.h\<close> and \<^verbatim>\<open>bits/stl_heap.h\<close>), an
  introsort: on a range of more than 16 elements, rounds of quicksort around the median of
  three elements; heap sort for a range that is still longer once \<open>2 * floor (log2 n)\<close>
  rounds are used up; a final insertion sort. The names are the library's without their
  leading underscores, an iterator is an index into the vector, and the comparator is the
  lambda of \<^verbatim>\<open>getDominantFrequencies\<close>, \<^verbatim>\<open>a.second > b.second\<close>.

  The scans of the partition step and of the unguarded insertion have no bounds check
  in the library; they rely on a sentinel. Where such a loop would leave the vector the
  model returns \<open>None\<close>.
\<close>

definition cmp_second :: "freq \<Rightarrow> freq \<Rightarrow> bool" where
  "cmp_second a b \<longleftrightarrow> snd a > snd b"

definition iter_swap :: "freq list \<Rightarrow> nat \<Rightarrow> nat \<Rightarrow> freq list" where
  "iter_swap v i j = (v[i := v ! j])[j := v ! i]"

text \<open>Heap sort, the fallback of the introsort.\<close>

function push_heap_loop :: "freq list \<Rightarrow> nat \<Rightarrow> nat \<Rightarrow> nat \<Rightarrow> freq \<Rightarrow> freq list" where
  "push_heap_loop v first holeIndex topIndex val =
     (let parent = (holeIndex - 1) div 2
      in if holeIndex > topIndex \<and> cmp_second (v ! (first + parent)) val
         then push_heap_loop (v[first + holeIndex := v ! (first + parent)]) first parent
                topIndex val
         else v[first + holeIndex := val])"
  by pat_completeness auto
termination
  by (relation "measure (\<lambda>(v, first, holeIndex, topIndex, val). holeIndex)") auto

declare push_heap_loop.simps [simp del]

function adjust_heap_loop ::
    "freq list \<Rightarrow> nat \<Rightarrow> nat \<Rightarrow> nat \<Rightarrow> nat \<Rightarrow> freq list \<times> nat \<times> nat" where
  "adjust_heap_loop v first holeIndex secondChild len =
     (if secondChild < (len - 1) div 2
      then (let sc = 2 * (secondChild + 1);
                sc1 = (if cmp_second (v ! (first + sc)) (v ! (first + (sc - 1)))
                       then sc - 1 else sc)
            in adjust_heap_loop (v[first + holeIndex := v ! (first + sc1)]) first sc1 sc1 len)
      else (v, holeIndex, secondChild))"
  by pat_completeness auto
termination
  by (relation "measure (\<lambda>(v, first, holeIndex, secondChild, len).
                   (len - 1) div 2 - secondChild)") auto

declare adjust_heap_loop.simps [simp del]

definition adjust_heap :: "freq list \<Rightarrow> nat \<Rightarrow> nat \<Rightarrow> nat \<Rightarrow> freq \<Rightarrow> freq list" where
  "adjust_heap v first holeIndex len val =
     (case adjust_heap_loop v first holeIndex holeIndex len of
        (v1, hole1, secondChild) \<Rightarrow>
          (if even len \<and> secondChild = (len - 2) div 2
           then (let sc = 2 * (secondChild + 1)
                 in push_heap_loop (v1[first + hole1 := v1 ! (first + (sc - 1))]) first (sc - 1)
                      holeIndex val)
           else push_heap_loop v1 first hole1 holeIndex val))"

definition pop_heap :: "freq list \<Rightarrow> nat \<Rightarrow> nat \<Rightarrow> nat \<Rightarrow> freq list" where
  "pop_heap v first lst result =
     (let val = v ! result
      in adjust_heap (v[result := v ! first]) first 0 (lst - first) val)"

definition make_heap :: "freq list \<Rightarrow> nat \<Rightarrow> nat \<Rightarrow> freq list" where
  "make_heap v first lst =
     (if lst - first < 2 then v
      else (let len = lst - first
            in fold (\<lambda>parent w. adjust_heap w first parent len (w ! (first + parent)))
                 (rev [0..<Suc ((len - 2) div 2)]) v))"

definition heap_select :: "freq list \<Rightarrow> nat \<Rightarrow> nat \<Rightarrow> nat \<Rightarrow> freq list" where
  "heap_select v first middle lst =
     fold (\<lambda>i w. if cmp_second (w ! i) (w ! first) then pop_heap w first middle i else w)
       [middle..<lst] (make_heap v first middle)"

definition sort_heap :: "freq list \<Rightarrow> nat \<Rightarrow> nat \<Rightarrow> freq list" where
  "sort_heap v first lst = fold (\<lambda>l w. pop_heap w first l l) (rev [first + 1..<lst]) v"

definition partial_sort :: "freq list \<Rightarrow> nat \<Rightarrow> nat \<Rightarrow> nat \<Rightarrow> freq list" where
  "partial_sort v first middle lst = sort_heap (heap_select v first middle lst) first middle"

text \<open>The quicksort round: the median of three goes to the front, then the partition.\<close>

definition move_median_to_first ::
    "freq list \<Rightarrow> nat \<Rightarrow> nat \<Rightarrow> nat \<Rightarrow> nat \<Rightarrow> freq list" where
  "move_median_to_first v result a b c =
     (if cmp_second (v ! a) (v ! b) then
        (if cmp_second (v ! b) (v ! c) then iter_swap v result b
         else if cmp_second (v ! a) (v ! c) then iter_swap v result c
         else iter_swap v result a)
      else if cmp_second (v ! a) (v ! c) then iter_swap v result a
      else if cmp_second (v ! b) (v ! c) then iter_swap v result c
      else iter_swap v result b)"

partial_function (option) scan_up :: "freq list \<Rightarrow> nat \<Rightarrow> nat \<Rightarrow> nat option" where
  "scan_up v first pivot =
     (if first < length v
      then (if cmp_second (v ! first) (v ! pivot) then scan_up v (first + 1) pivot
            else Some first)
      else None)"

partial_function (option) scan_down :: "freq list \<Rightarrow> nat \<Rightarrow> nat \<Rightarrow> nat option" where
  "scan_down v lst pivot =
     (if lst < length v
      then (if cmp_second (v ! pivot) (v ! lst)
            then (if lst = 0 then None else scan_down v (lst - 1) pivot)
            else Some lst)
      else None)"

partial_function (option) unguarded_partition ::
    "freq list \<Rightarrow> nat \<Rightarrow> nat \<Rightarrow> nat \<Rightarrow> (freq list \<times> nat) option" where
  "unguarded_partition v first lst pivot =
     (case scan_up v first pivot of
        None \<Rightarrow> None
      | Some first1 \<Rightarrow>
          (if lst = 0 then None
           else (case scan_down v (lst - 1) pivot of
                   None \<Rightarrow> None
                 | Some lst1 \<Rightarrow>
                     (if \<not> first1 < lst1 then Some (v, first1)
                      else unguarded_partition (iter_swap v first1 lst1) (first1 + 1) lst1
                             pivot))))"

definition unguarded_partition_pivot ::
    "freq list \<Rightarrow> nat \<Rightarrow> nat \<Rightarrow> (freq list \<times> nat) option" where
  "unguarded_partition_pivot v first lst =
     (let mid = first + (lst - first) div 2;
          v1 = move_median_to_first v first (first + 1) mid (lst - 1)
      in unguarded_partition v1 (first + 1) lst first)"

partial_function (option) introsort_loop ::
    "freq list \<Rightarrow> nat \<Rightarrow> nat \<Rightarrow> nat \<Rightarrow> freq list option" where
  "introsort_loop v first lst depth_limit =
     (if lst - first > 16
      then (if depth_limit = 0 then Some (partial_sort v first lst lst)
            else (case unguarded_partition_pivot v first lst of
                    None \<Rightarrow> None
                  | Some (v1, cut_it) \<Rightarrow>
                      Option.bind (introsort_loop v1 cut_it lst (depth_limit - 1))
                        (\<lambda>v2. introsort_loop v2 first cut_it (depth_limit - 1))))
      else Some v)"

text \<open>The insertion sorts that finish the job.\<close>

partial_function (option) unguarded_linear_insert ::
    "freq list \<Rightarrow> freq \<Rightarrow> nat \<Rightarrow> freq list option" where
  "unguarded_linear_insert v val lst =
     (if lst = 0 then None
      else (let next = lst - 1
            in if cmp_second val (v ! next)
               then unguarded_linear_insert (v[lst := v ! next]) val next
               else Some (v[lst := val])))"

definition move_backward :: "freq list \<Rightarrow> nat \<Rightarrow> nat \<Rightarrow> freq list" where
  "move_backward v first i = fold (\<lambda>k w. w[k + 1 := w ! k]) (rev [first..<i]) v"

fun insertion_loop :: "freq list \<Rightarrow> nat \<Rightarrow> nat list \<Rightarrow> freq list option" where
  "insertion_loop v first [] = Some v"
| "insertion_loop v first (i # js) =
     (if cmp_second (v ! i) (v ! first)
      then insertion_loop ((move_backward v first i)[first := v ! i]) first js
      else (case unguarded_linear_insert v (v ! i) i of
              None \<Rightarrow> None
            | Some v1 \<Rightarrow> insertion_loop v1 first js))"

definition insertion_sort :: "freq list \<Rightarrow> nat \<Rightarrow> nat \<Rightarrow> freq list option" where
  "insertion_sort v first lst =
     (if first = lst then Some v else insertion_loop v first [first + 1..<lst])"

fun unguarded_insertion_sort :: "freq list \<Rightarrow> nat list \<Rightarrow> freq list option" where
  "unguarded_insertion_sort v [] = Some v"
| "unguarded_insertion_sort v (i # js) =
     (case unguarded_linear_insert v (v ! i) i of
        None \<Rightarrow> None
      | Some v1 \<Rightarrow> unguarded_insertion_sort v1 js)"

definition final_insertion_sort :: "freq list \<Rightarrow> nat \<Rightarrow> nat \<Rightarrow> freq list option" where
  "final_insertion_sort v first lst =
     (if lst - first > 16
      then (case insertion_sort v first (first + 16) of
              None \<Rightarrow> None
            | Some v1 \<Rightarrow> unguarded_insertion_sort v1 [first + 16..<lst])
      else insertion_sort v first lst)"

text \<open>\<^verbatim>\<open>std::__lg\<close>: the position of the highest set bit.\<close>

fun lg :: "nat \<Rightarrow> nat" where
  "lg n = (if n \<le> 1 then 0 else Suc (lg (n div 2)))"

declare lg.simps [simp del]

definition std_sort_gnu :: "freq list \<Rightarrow> freq list option" where
  "std_sort_gnu v =
     (if v = [] then Some v
      else (case introsort_loop v 0 (length v) (lg (length v) * 2) of
              None \<Rightarrow> None
            | Some v1 \<Rightarrow> final_insertion_sort v1 0 (length v)))"

text \<open>
  The routine as \<^verbatim>\<open>getDominantFrequencies\<close> uses it, on the vector in place. A vector on
  which the model has no result is left as it is; the evaluations below state the result
  of \<open>std_sort_gnu\<close> itself where they depend on it.
\<close>

definition gnu_sort :: "freq list \<Rightarrow> freq list" where
  "gnu_sort v = (case std_sort_gnu v of None \<Rightarrow> v | Some w \<Rightarrow> w)"

declare scan_up.simps [code]
declare scan_down.simps [code]
declare unguarded_partition.simps [code]
declare introsort_loop.simps [code]
declare unguarded_linear_insert.simps [code]

section \<open>Loops as closed forms\<close>

lemma fold_update_upt:
  "m \<le> length v \<Longrightarrow> fold (\<lambda>i e. e[i := f i]) [0..<m] v = map f [0..<m] @ drop m v"
proof (induction m)
  case 0 then show ?case by simp
next
  case (Suc m)
  then have "fold (\<lambda>i e. e[i := f i]) [0..<Suc m] v = (map f [0..<m] @ drop m v)[m := f m]"
    by simp
  also have "\<dots> = map f [0..<m] @ (drop m v)[0 := f m]"
    by (simp add: list_update_append)
  also have "(drop m v)[0 := f m] = f m # drop (Suc m) v"
    using Suc.prems by (metis Cons_nth_drop_Suc Suc_le_lessD list_update_code(2))
  finally show ?case by simp
qed

lemma fold_update_self:
  "m \<le> length v \<Longrightarrow> fold (\<lambda>i y. y[i := g (y ! i)]) [0..<m] v = map g (take m v) @ drop m v"
proof (induction m)
  case 0 then show ?case by simp
next
  case (Suc m)
  then have m: "m < length v" by simp
  have "fold (\<lambda>i y. y[i := g (y ! i)]) [0..<Suc m] v
      = (map g (take m v) @ drop m v)[m := g ((map g (take m v) @ drop m v) ! m)]"
    using Suc by simp
  also have "(map g (take m v) @ drop m v) ! m = v ! m"
    using m by (simp add: nth_append)
  also have "(map g (take m v) @ drop m v)[m := g (v ! m)] = map g (take m v) @ (drop m v)[0 := g (v ! m)]"
    using m by (simp add: list_update_append)
  also have "(drop m v)[0 := g (v ! m)] = g (v ! m) # drop (Suc m) v"
    using m by (metis Cons_nth_drop_Suc list_update_code(2))
  finally show ?case using m by (simp add: take_Suc_conv_app_nth)
qed

lemma FourierTransform_new_eq:
  "FourierTransform_new input = \<lparr>ft_data = map (\<lambda>v. Complex v 0) input, ft_n = int (length input)\<rparr>"
proof -
  have "map (\<lambda>i. Complex (input ! i) 0) [0..<length input] = map (\<lambda>v. Complex v 0) input"
    by (rule nth_equalityI) simp_all
  then show ?thesis
    by (simp add: FourierTransform_new_def Let_def fold_update_upt)
qed

lemma fft_even_eq: "fft_even x = map (\<lambda>i. x ! (i * 2)) [0..<length x div 2]"
  by (simp add: fft_even_def Let_def fold_update_upt)

lemma fft_odd_eq: "fft_odd x = map (\<lambda>i. x ! (i * 2 + 1)) [0..<length x div 2]"
  by (simp add: fft_odd_def Let_def fold_update_upt)

lemma update2_loop_length:
  "length (fold (\<lambda>k y. (y[k := p k])[k + h := q k]) js x) = length x"
  by (induction js arbitrary: x) simp_all

lemma update2_loop_nth:
  "m \<le> h \<Longrightarrow> h + h \<le> length x \<Longrightarrow> i < length x \<Longrightarrow>
   fold (\<lambda>k y. (y[k := p k])[k + h := q k]) [0..<m] x ! i =
     (if h \<le> i \<and> i < h + m then q (i - h)
      else if i < m then p i else x ! i)"
proof (induction m)
  case 0 then show ?case by auto
next
  case (Suc m)
  then show ?case
    by (auto simp add: nth_list_update update2_loop_length)
qed

lemma length_fft_combine [simp]: "length (fft_combine x ev od) = length x"
  by (simp add: fft_combine_def Let_def update2_loop_length)

lemma fft_combine_nth:
  "i < length x \<Longrightarrow> fft_combine x ev od ! i =
     (if length x div 2 \<le> i \<and> i < length x div 2 + length x div 2
      then ev ! (i - length x div 2)
             - twiddle (length x) (i - length x div 2) * od ! (i - length x div 2)
      else if i < length x div 2 then ev ! i + twiddle (length x) i * od ! i else x ! i)"
  unfolding fft_combine_def Let_def
  by (subst update2_loop_nth) simp_all

lemma length_fft [simp]: "length (fft x) = length x"
  by (induction x rule: fft.induct) (subst fft.simps, simp)

lemma ifft_eq: "ifft x = map (\<lambda>v. cnj v / of_nat (length x)) (fft (map cnj x))"
proof -
  have 1: "fold (\<lambda>i y. y[i := cnj (y ! i)]) [0..<length x] x = map cnj x"
    using fold_update_self[of "length x" x cnj] by simp
  have c: "Complex (real (length x)) 0 = of_nat (length x)"
    by (simp add: complex_eq_iff)
  show ?thesis
    unfolding ifft_def Let_def 1
    using fold_update_self[of "length x" "fft (map cnj x)" "\<lambda>v. cnj v / Complex (real (length x)) 0"]
    by (simp add: c)
qed

lemma twiddle_0: "twiddle N 0 = 1"
  by (simp add: twiddle_def)

section \<open>The padding loop and \<^verbatim>\<open>compute\<close>\<close>

lemma pad_loop_pow2:
  "\<exists>m\<ge>k. pad_loop (2 ^ k) n = Some (2 ^ m) \<and> n \<le> 2 ^ m \<and> (\<forall>j. k \<le> j \<and> n \<le> 2 ^ j \<longrightarrow> m \<le> j)"
proof (induction "nat (n - 2 ^ k)" arbitrary: k rule: less_induct)
  case less
  show ?case
  proof (cases "(2::int) ^ k < n")
    case False
    then have "pad_loop (2 ^ k) n = Some (2 ^ k)"
      by (subst pad_loop.simps) simp
    with False show ?thesis by (intro exI[of _ k]) simp
  next
    case True
    have "nat (n - 2 ^ Suc k) < nat (n - 2 ^ k)"
      using True by simp
    from less[OF this] obtain m where m: "Suc k \<le> m" "pad_loop (2 ^ Suc k) n = Some (2 ^ m)"
      "n \<le> 2 ^ m" "\<forall>j. Suc k \<le> j \<and> n \<le> 2 ^ j \<longrightarrow> m \<le> j"
      by blast
    have "pad_loop (2 ^ k) n = pad_loop (2 ^ Suc k) n"
      using True by (subst pad_loop.simps) (simp add: mult.commute)
    moreover have "\<forall>j. k \<le> j \<and> n \<le> 2 ^ j \<longrightarrow> m \<le> j"
    proof (intro allI impI)
      fix j assume j: "k \<le> j \<and> n \<le> 2 ^ j"
      with True have "j \<noteq> k" by auto
      with j m(4) show "m \<le> j" by (simp add: Suc_leI le_neq_implies_less) 
    qed
    ultimately show ?thesis using m by (intro exI[of _ m]) simp
  qed
qed

lemma pad_loop_1:
  "\<exists>m. pad_loop 1 n = Some (2 ^ m) \<and> n \<le> 2 ^ m \<and> (\<forall>j. n \<le> 2 ^ j \<longrightarrow> m \<le> j)"
  using pad_loop_pow2[of 0 n] by auto

lemma fold_update_from:
  "n \<le> m \<Longrightarrow> m \<le> length v \<Longrightarrow> fold (\<lambda>i e. e[i := c]) [n..<m] v = take n v @ replicate (m - n) c @ drop m v"
proof (induction m)
  case 0 then show ?case by simp
next
  case (Suc m)
  show ?case
  proof (cases "n = Suc m")
    case True then show ?thesis using Suc.prems by simp
  next
    case False
    then have nm: "n \<le> m" "m < length v" using Suc.prems by simp_all
    then have "fold (\<lambda>i e. e[i := c]) [n..<Suc m] v = (take n v @ replicate (m - n) c @ drop m v)[m := c]"
      using Suc.IH by simp
    also have "\<dots> = take n v @ replicate (m - n) c @ (drop m v)[0 := c]"
      using nm by (simp add: list_update_append)
    also have "(drop m v)[0 := c] = c # drop (Suc m) v"
      using nm by (metis Cons_nth_drop_Suc list_update_code(2))
    also have "replicate (m - n) c @ c # drop (Suc m) v = replicate (Suc m - n) c @ drop (Suc m) v"
      using nm by (simp add: Suc_diff_le replicate_app_Cons_same)
    finally show ?thesis .
  qed
qed

lemma compute_buffer:
  assumes "pad_loop 1 (ft_n ft) = Some (int P)" "ft_n ft = int (length (ft_data ft))"
    "length (ft_data ft) \<le> P"
  shows "compute ft = Some (ft\<lparr>ft_data := fft (ft_data ft @ replicate (P - length (ft_data ft)) 0)\<rparr>)"
proof -
  let ?n = "length (ft_data ft)"
  have 1: "fold (\<lambda>i p. p[i := ft_data ft ! i]) [0..<?n] (replicate P 0)
      = ft_data ft @ replicate (P - ?n) 0"
    using assms(3) by (simp add: fold_update_upt map_nth)
  have 2: "fold (\<lambda>i p. p[i := Complex 0 0]) [?n..<P] (ft_data ft @ replicate (P - ?n) 0)
      = ft_data ft @ replicate (P - ?n) 0"
    using assms(3) by (simp add: fold_update_from Complex_eq_0 flip: zero_complex.code)
  show ?thesis
    unfolding compute_def using assms(1,2) by (simp add: Let_def 1 2)
qed

lemma compute_new:
  "\<exists>m. compute (FourierTransform_new input) =
         Some \<lparr>ft_data = fft (map (\<lambda>v. Complex v 0) input @ replicate (2 ^ m - length input) 0),
               ft_n = int (length input)\<rparr>
       \<and> length input \<le> 2 ^ m \<and> (\<forall>j. length input \<le> 2 ^ j \<longrightarrow> m \<le> j)"
proof -
  obtain m where m: "pad_loop 1 (int (length input)) = Some (2 ^ m)" "int (length input) \<le> 2 ^ m"
    "\<forall>j. int (length input) \<le> 2 ^ j \<longrightarrow> m \<le> j"
    using pad_loop_1[of "int (length input)"] by blast
  have le: "length input \<le> 2 ^ m"
    using m(2) by (metis of_nat_le_iff of_nat_numeral of_nat_power)
  have least: "\<forall>j. length input \<le> 2 ^ j \<longrightarrow> m \<le> j"
  proof (intro allI impI)
    fix j assume "length input \<le> 2 ^ j"
    then have "int (length input) \<le> 2 ^ j"
      by (metis of_nat_le_iff of_nat_numeral of_nat_power)
    with m(3) show "m \<le> j" by blast
  qed
  have "compute (FourierTransform_new input) =
      Some ((FourierTransform_new input)\<lparr>ft_data :=
        fft (ft_data (FourierTransform_new input)
             @ replicate (2 ^ m - length (ft_data (FourierTransform_new input))) 0)\<rparr>)"
    by (rule compute_buffer) (use m(1) le in \<open>simp_all add: FourierTransform_new_eq\<close>)
  then show ?thesis using le least
    by (intro exI[of _ m]) (simp add: FourierTransform_new_eq)
qed

section \<open>The stages of the decomposition\<close>

lemma trend_window_count:
  "snd (fold (\<lambda>j (wsum, wcount).
             let idx = int i + j
             in if idx \<ge> 0 \<and> idx < int (length xs)
                then (wsum + xs ! nat idx, wcount + 1)
                else (wsum, wcount)) js (s, c))
   = c + int (length (filter (\<lambda>j. 0 \<le> int i + j \<and> int i + j < int (length xs)) js))"
  by (induction js arbitrary: s c) (simp_all add: Let_def)

lemma trend_window_count_pos:
  assumes "1 \<le> window" "i < length xs"
  shows "1 \<le> snd (trend_window xs window i)"
proof -
  let ?h = "window sdiv 2"
  let ?ok = "\<lambda>j. 0 \<le> int i + j \<and> int i + j < int (length xs)"
  have h: "0 \<le> ?h"
    using assms(1) by (simp add: signed_divide_int_def sgn_if pos_imp_zdiv_nonneg_iff)
  then have "0 \<in> set (filter ?ok [- ?h .. ?h])"
    using assms(2) by simp
  then have "filter ?ok [- ?h .. ?h] \<noteq> []"
    by (metis empty_iff empty_set)
  then have "1 \<le> int (length (filter ?ok [- ?h .. ?h]))"
    by (simp add: Suc_leI)
  then show ?thesis
    unfolding trend_window_def trend_window_count by simp
qed

lemma trend_loop_ok:
  "\<forall>i\<in>set js. snd (trend_window xs w i) \<noteq> 0 \<Longrightarrow>
   trend_loop xs w js tr =
     Inr (fold (\<lambda>i t. t[i := fst (trend_window xs w i) / real_of_int (snd (trend_window xs w i))]) js tr)"
  by (induction js arbitrary: tr) (auto simp add: fdiv_def split: prod.splits)

lemma extractTrend_ok:
  assumes "1 \<le> period sd"
  shows "\<exists>tr. extractTrend sd = Inr (sd\<lparr>trend := tr\<rparr>) \<and> length tr = length (trend sd)"
proof -
  have "\<forall>i\<in>set [0..<length (original sd)]. snd (trend_window (original sd) (period sd) i) \<noteq> 0"
    using trend_window_count_pos[OF assms] by fastforce
  from trend_loop_ok[OF this, of "trend sd"] obtain tr where
    tr: "trend_loop (original sd) (period sd) [0..<length (original sd)] (trend sd) = Inr tr"
      "tr = fold (\<lambda>i t. t[i := fst (trend_window (original sd) (period sd) i)
                / real_of_int (snd (trend_window (original sd) (period sd) i))])
              [0..<length (original sd)] (trend sd)"
    by simp
  have "length tr = length (trend sd)"
    unfolding tr(2) by (rule length_fold_update)
  moreover have "extractTrend sd = Inr (sd\<lparr>trend := tr\<rparr>)"
    by (simp add: extractTrend_def Let_def tr(1))
  ultimately show ?thesis by blast
qed

lemma fold_plus_sum_list: "fold (\<lambda>val m. m + val) xs (a::real) = a + sum_list xs"
  by (induction xs arbitrary: a) simp_all

lemma sum_list_centred:
  "sum_list (map (\<lambda>val. val - sum_list xs / real (length xs)) xs) = (0::real)"
proof (cases "xs = []")
  case True then show ?thesis by simp
next
  case False
  then have "real (length xs) \<noteq> 0" by simp
  moreover have "sum_list (map (\<lambda>val. val - sum_list xs / real (length xs)) xs)
      = sum_list xs - real (length xs) * (sum_list xs / real (length xs))"
    by (simp add: sum_list_subtractf sum_list_triv)
  ultimately show ?thesis by simp
qed

lemma extractSeasonal_ok:
  "\<exists>s. extractSeasonal srt sd = Some (sd\<lparr>seasonal := s\<rparr>) \<and> length s = length (seasonal sd)
       \<and> sum_list s = 0"
proof -
  let ?d = "fold (\<lambda>i d. d[i := original sd ! i - trend sd ! i]) [0..<length (original sd)]
              (replicate (length (original sd)) 0)"
  obtain ft where ft: "compute (FourierTransform_new ?d) = Some ft"
    using compute_new[of ?d] by blast
  let ?dom = "getDominantFrequencies srt ft 3"
  let ?n = "length (seasonal sd)"
  let ?s1 = "fold (\<lambda>i s. s[i := seasonal_at ?dom ?n i]) [0..<?n] (seasonal sd)"
  have len: "length ?s1 = ?n" by (simp add: length_fold_update)
  let ?s2 = "map (\<lambda>val. val - fold (\<lambda>val m. m + val) ?s1 0 / real ?n) ?s1"
  have "extractSeasonal srt sd = Some (sd\<lparr>seasonal := ?s2\<rparr>)"
    by (simp add: extractSeasonal_def Let_def ft)
  moreover have "sum_list ?s2 = 0"
    using sum_list_centred[of ?s1] by (simp add: fold_plus_sum_list len)
  moreover have "length ?s2 = ?n" using len by simp
  ultimately show ?thesis by blast
qed

lemma extractResidual_eq:
  assumes "length (residual sd) = length (original sd)"
  shows "extractResidual sd =
     sd\<lparr>residual := map (\<lambda>i. original sd ! i - trend sd ! i - seasonal sd ! i) [0..<length (original sd)]\<rparr>"
  using assms by (simp add: extractResidual_def fold_update_upt)

section \<open>Dominant frequencies\<close>

lemma fold_snoc_map: "fold (\<lambda>i acc. acc @ [f i]) js acc0 = acc0 @ map f js"
  by (induction js arbitrary: acc0) simp_all

lemma getMagnitudeSpectrum_eq:
  "getMagnitudeSpectrum ft = map (\<lambda>i. cmod (ft_data ft ! i)) [0..<length (ft_data ft) div 2]"
  by (simp add: getMagnitudeSpectrum_def Let_def fold_update_upt)

lemma take_as_map_nth: "map (\<lambda>i. s ! i) [0..<min k (length s)] = take k s"
  by (rule nth_equalityI) simp_all

lemma getDominantFrequencies_eq:
  "getDominantFrequencies srt ft top_k =
     take (nat top_k)
       (srt (map (\<lambda>i. (int i, cmod (ft_data ft ! i))) [1..<length (ft_data ft) div 2]))"
proof -
  let ?m = "length (ft_data ft) div 2"
  have fm: "map (\<lambda>i. (int i, getMagnitudeSpectrum ft ! i)) [1..<?m]
      = map (\<lambda>i. (int i, cmod (ft_data ft ! i))) [1..<?m]"
    by (rule map_cong) (simp_all add: getMagnitudeSpectrum_eq)
  have k: "nat (min top_k (int (length s))) = min (nat top_k) (length s)" for s :: "freq list"
    by simp
  have lm: "length (getMagnitudeSpectrum ft) = ?m"
    by (simp add: getMagnitudeSpectrum_eq)
  show ?thesis
    unfolding getDominantFrequencies_def Let_def fold_snoc_map k lm fm
    by (simp add: take_as_map_nth)
qed




section \<open>Small transforms and the stable sort\<close>

lemma pad_loop_1_8: "pad_loop 1 8 = Some 8"
  by (simp add: pad_loop.simps)

lemma fft_single: "fft [a] = [a]"
  by (simp add: fft.simps)

lemma fft_pair: "fft [a, b] = [a + b, a - b]"
  by (subst fft.simps) (simp add: fft_even_eq fft_odd_eq fft_single list_eq_iff_nth_eq fft_combine_nth twiddle_0 nth_Cons' less_Suc_eq)

lemma upt_4: "[0..<4] = [0,1,2,3]" by (simp add: upt_rec)
lemma upt_2: "[0..<2] = [0,1]" by (simp add: upt_rec)
lemma upt_8: "[0..<8] = [0,1,2,3,4,5,6,7]" by (simp add: upt_rec)

lemma nth_equality8:
  assumes "length xs = 8" "xs ! 0 = a0" "xs ! 1 = a1" "xs ! 2 = a2" "xs ! 3 = a3"
          "xs ! 4 = a4" "xs ! 5 = a5" "xs ! 6 = a6" "xs ! 7 = a7"
  shows "xs = [a0,a1,a2,a3,a4,a5,a6,a7]"
proof -
  have "xs = map (\<lambda>i. xs ! i) [0..<8]" using assms(1) by (metis map_nth)
  then show ?thesis using assms unfolding upt_8 by simp
qed

lemma nth_equality4:
  assumes "length xs = 4" "xs ! 0 = a0" "xs ! 1 = a1" "xs ! 2 = a2" "xs ! 3 = a3"
  shows "xs = [a0,a1,a2,a3]"
proof -
  have "xs = map (\<lambda>i. xs ! i) [0..<4]" using assms(1) by (metis map_nth)
  then show ?thesis using assms unfolding upt_4 by simp
qed

lemma fft_4_impulse: "fft [a, 0, 0, 0] = [a, a, a, a]"
  by (subst fft.simps, rule nth_equality4)
     (simp_all add: fft_even_eq fft_odd_eq fft_pair fft_combine_nth upt_2)

lemma fft_8_impulse: "fft [a, 0, 0, 0, 0, 0, 0, 0] = [a, a, a, a, a, a, a, a]"
  by (subst fft.simps, rule nth_equality8)
     (simp_all add: fft_even_eq fft_odd_eq fft_4_impulse fft_combine_nth upt_4)

lemma compute_impulse:
  "compute (FourierTransform_new [1, 0, 0, 0, 0, 0, 0, 0]) =
     Some \<lparr>ft_data = [1, 1, 1, 1, 1, 1, 1, 1], ft_n = 8\<rparr>"
proof -
  have "compute \<lparr>ft_data = [1, 0, 0, 0, 0, 0, 0, 0], ft_n = 8\<rparr> =
      Some (\<lparr>ft_data = [1, 0, 0, 0, 0, 0, 0, 0], ft_n = 8\<rparr>\<lparr>ft_data :=
        fft (ft_data \<lparr>ft_data = [1, 0, 0, 0, 0, 0, 0, 0], ft_n = 8\<rparr>
             @ replicate (8 - length (ft_data \<lparr>ft_data = [1, 0, 0, 0, 0, 0, 0, 0], ft_n = 8\<rparr>)) 0)\<rparr>)"
    by (rule compute_buffer) (simp_all add: pad_loop_1_8)
  then show ?thesis
    by (simp add: FourierTransform_new_eq fft_8_impulse flip: one_complex.code zero_complex.code)
qed


section \<open>The transform and its inverse\<close>

text \<open>
  The inverse runs the same recursion on conjugated data. Two facts about \<^verbatim>\<open>fft\<close> carry
  the round trip: it commutes with multiplication by a constant, and on a buffer written
  as two halves \<open>u @ v\<close> its even-numbered outputs are the transform of \<open>u + v\<close> and its
  odd-numbered outputs the transform of \<open>(u - v)\<close> times the twiddle factors. Both hold
  for the rational \<open>PI\<close> of the source: only \<open>cis (a + b) = cis a * cis b\<close> and
  \<open>cmod (cis a) = 1\<close> are used, never \<open>cis pi = - 1\<close>.
\<close>

lemma twiddle_double: "0 < N \<Longrightarrow> twiddle (2 * N) (2 * i) = twiddle N i"
proof -
  assume N: "0 < N"
  have "- 2 * PI * real (2 * i) / real (2 * N) = - 2 * PI * real i / real N"
    using N by (simp add: field_simps)
  then show ?thesis
    unfolding twiddle_def by (simp only:)
qed

lemma twiddle_double_Suc: "0 < N \<Longrightarrow> twiddle (2 * N) (2 * i + 1) = twiddle (2 * N) 1 * twiddle N i"
proof -
  assume N: "0 < N"
  have "- 2 * PI * real (2 * i + 1) / real (2 * N) = - 2 * PI * real 1 / real (2 * N) + - 2 * PI * real i / real N"
    using N by (simp add: field_simps)
  then show ?thesis
    unfolding twiddle_def by (simp only: cis_mult)
qed

lemma twiddle_cnj: "cnj (twiddle N i) * twiddle N i = 1"
  by (simp add: twiddle_def cis_cnj cis_mult)

lemma fft_nth_lo:
  assumes "length x = 2 * h" "0 < h" "i < h"
  shows "fft x ! i = fft (fft_even x) ! i + twiddle (2 * h) i * fft (fft_odd x) ! i"
  using assms by (subst fft.simps) (simp add: fft_combine_nth)

lemma fft_nth_hi:
  assumes "length x = 2 * h" "0 < h" "i < h"
  shows "fft x ! (h + i) = fft (fft_even x) ! i - twiddle (2 * h) i * fft (fft_odd x) ! i"
  using assms by (subst fft.simps) (simp add: fft_combine_nth)

lemma fft_even_nth: "i < length x div 2 \<Longrightarrow> fft_even x ! i = x ! (2 * i)"
  by (simp add: fft_even_eq mult.commute)

lemma fft_odd_nth: "i < length x div 2 \<Longrightarrow> fft_odd x ! i = x ! (2 * i + 1)"
  by (simp add: fft_odd_eq mult.commute)

lemma fft_even_map: "fft_even (map f x) = map f (fft_even x)"
  by (rule nth_equalityI) (simp_all add: fft_even_nth)

lemma fft_odd_map: "fft_odd (map f x) = map f (fft_odd x)"
  by (rule nth_equalityI) (simp_all add: fft_odd_nth)

lemma fft_combine_scale:
  assumes "length ev = length x div 2" "length od = length x div 2"
  shows "fft_combine (map ((*) c) x) (map ((*) c) ev) (map ((*) c) od) = map ((*) c) (fft_combine x ev od)"
  using assms by (intro nth_equalityI) (auto simp add: fft_combine_nth algebra_simps)

lemma fft_scale: "fft (map ((*) c) x) = map ((*) c) (fft x)"
proof (induction x rule: fft.induct)
  case (1 x)
  show ?case
  proof (cases "length x \<le> 1")
    case True
    then show ?thesis by (simp add: fft.simps)
  next
    case False
    have "fft (map ((*) c) x) =
        fft_combine (map ((*) c) x) (fft (map ((*) c) (fft_even x))) (fft (map ((*) c) (fft_odd x)))"
      using False by (subst fft.simps) (simp add: fft_even_map fft_odd_map)
    also have "\<dots> = fft_combine (map ((*) c) x) (map ((*) c) (fft (fft_even x))) (map ((*) c) (fft (fft_odd x)))"
      using 1 False by simp
    also have "\<dots> = map ((*) c) (fft_combine x (fft (fft_even x)) (fft (fft_odd x)))"
      by (rule fft_combine_scale) simp_all
    also have "\<dots> = map ((*) c) (fft x)"
      using False by (subst (2) fft.simps) simp
    finally show ?thesis .
  qed
qed

lemma fft_even_append:
  assumes "even (length u)"
  shows "fft_even (u @ v) = fft_even u @ fft_even v"
proof (rule nth_equalityI)
  show "length (fft_even (u @ v)) = length (fft_even u @ fft_even v)"
    using assms by (auto elim!: evenE)
  fix i assume "i < length (fft_even (u @ v))"
  then have i: "i < (length u + length v) div 2" by simp
  show "fft_even (u @ v) ! i = (fft_even u @ fft_even v) ! i"
  proof (cases "i < length u div 2")
    case True
    then show ?thesis using i assms
      by (auto simp add: fft_even_nth nth_append elim!: evenE)
  next
    case False
    then have "2 * i - length u = 2 * (i - length u div 2)" "\<not> 2 * i < length u"
      "i - length u div 2 < length v div 2"
      using assms i by (auto elim!: evenE)
    then show ?thesis using i False
      by (simp add: fft_even_nth nth_append)
  qed
qed

lemma fft_odd_append:
  assumes "even (length u)"
  shows "fft_odd (u @ v) = fft_odd u @ fft_odd v"
proof (rule nth_equalityI)
  show "length (fft_odd (u @ v)) = length (fft_odd u @ fft_odd v)"
    using assms by (auto elim!: evenE)
  fix i assume "i < length (fft_odd (u @ v))"
  then have i: "i < (length u + length v) div 2" by simp
  show "fft_odd (u @ v) ! i = (fft_odd u @ fft_odd v) ! i"
  proof (cases "i < length u div 2")
    case True
    then have "2 * i + 1 < length u" using assms by (auto elim!: evenE)
    then show ?thesis using i True
      by (simp add: fft_odd_nth nth_append)
  next
    case False
    then have "2 * i + 1 - length u = 2 * (i - length u div 2) + 1" "\<not> 2 * i + 1 < length u"
      "i - length u div 2 < length v div 2"
      using assms i by (auto elim!: evenE)
    then show ?thesis using i False
      by (simp add: fft_odd_nth nth_append)
  qed
qed

lemma fft_dif:
  "length u = 2 ^ k \<Longrightarrow> length v = 2 ^ k \<Longrightarrow> j < 2 ^ k \<Longrightarrow>
     fft (u @ v) ! (2 * j) = fft (map (\<lambda>i. u ! i + v ! i) [0..<2 ^ k]) ! j
   \<and> fft (u @ v) ! (2 * j + 1)
       = fft (map (\<lambda>i. (u ! i - v ! i) * twiddle (2 ^ Suc k) i) [0..<2 ^ k]) ! j"
proof (induction k arbitrary: u v j)
  case 0
  then obtain a b where ab: "u = [a]" "v = [b]"
    by (auto simp add: length_Suc_conv)
  with 0 show ?case
    by (simp add: fft_pair fft_single twiddle_0)
next
  case (Suc k)
  define h :: nat where "h = 2 ^ k"
  have h: "0 < h" by (simp add: h_def)
  have lu: "length u = 2 * h" and lv: "length v = 2 * h" and j: "j < 2 * h"
    using Suc.prems by (simp_all add: h_def)
  define eu ev ou ov where "eu = fft_even u" and "ev = fft_even v"
    and "ou = fft_odd u" and "ov = fft_odd v"
  have len: "length eu = h" "length ev = h" "length ou = h" "length ov = h"
    using lu lv by (simp_all add: eu_def ev_def ou_def ov_def)
  have nth: "\<And>i. i < h \<Longrightarrow> eu ! i = u ! (2 * i)" "\<And>i. i < h \<Longrightarrow> ev ! i = v ! (2 * i)"
    "\<And>i. i < h \<Longrightarrow> ou ! i = u ! (2 * i + 1)" "\<And>i. i < h \<Longrightarrow> ov ! i = v ! (2 * i + 1)"
    using lu lv by (simp_all add: eu_def ev_def ou_def ov_def fft_even_nth fft_odd_nth)
  have euv: "fft_even (u @ v) = eu @ ev" and ouv: "fft_odd (u @ v) = ou @ ov"
    using lu by (simp_all add: fft_even_append fft_odd_append eu_def ev_def ou_def ov_def)
  define S where "S = map (\<lambda>i. u ! i + v ! i) [0..<2 * h]"
  define Z where "Z = map (\<lambda>i. (u ! i - v ! i) * twiddle (4 * h) i) [0..<2 * h]"
  define Se where "Se = map (\<lambda>i. eu ! i + ev ! i) [0..<h]"
  define So where "So = map (\<lambda>i. ou ! i + ov ! i) [0..<h]"
  define Ze where "Ze = map (\<lambda>i. (eu ! i - ev ! i) * twiddle (2 * h) i) [0..<h]"
  define Zo where "Zo = map (\<lambda>i. (ou ! i - ov ! i) * twiddle (2 * h) i) [0..<h]"
  have lS: "length S = 2 * h" and lZ: "length Z = 2 * h" and lZo: "length Zo = h"
    by (simp_all add: S_def Z_def Zo_def)
  have Se: "fft_even S = Se"
    by (rule nth_equalityI) (simp_all add: S_def Se_def fft_even_nth nth)
  have So: "fft_odd S = So"
    by (rule nth_equalityI) (simp_all add: S_def So_def fft_odd_nth nth)
  have tw4: "twiddle (4 * h) (2 * i) = twiddle (2 * h) i"
    "twiddle (4 * h) (2 * i + 1) = twiddle (4 * h) 1 * twiddle (2 * h) i" for i
    using twiddle_double[of "2 * h" i] twiddle_double_Suc[of "2 * h" i] h by simp_all
  have Ze: "fft_even Z = Ze"
    by (rule nth_equalityI) (simp_all add: Z_def Ze_def fft_even_nth nth tw4)
  have tw4': "twiddle (4 * h) (Suc (2 * i)) = twiddle (4 * h) (Suc 0) * twiddle (2 * h) i" for i
    using tw4(2)[of i] by simp
  have Zo: "fft_odd Z = map ((*) (twiddle (4 * h) 1)) Zo"
    by (rule nth_equalityI) (simp_all add: Z_def Zo_def fft_odd_nth nth tw4')
  have IHe: "fft (eu @ ev) ! (2 * i) = fft Se ! i" "fft (eu @ ev) ! (2 * i + 1) = fft Ze ! i"
    if "i < h" for i
    using Suc.IH[of eu ev i] that len by (simp_all add: h_def Se_def Ze_def)
  have IHo: "fft (ou @ ov) ! (2 * i) = fft So ! i" "fft (ou @ ov) ! (2 * i + 1) = fft Zo ! i"
    if "i < h" for i
    using Suc.IH[of ou ov i] that len by (simp_all add: h_def So_def Zo_def)
  have luv: "length (u @ v) = 2 * (2 * h)" using lu lv by simp
  have goal: "fft (u @ v) ! (2 * j) = fft S ! j \<and> fft (u @ v) ! (2 * j + 1) = fft Z ! j"
  proof (cases "j < h")
    case True
    have a: "2 * j < 2 * h" "2 * j + 1 < 2 * h" using True by simp_all
    have "fft (u @ v) ! (2 * j) = fft (eu @ ev) ! (2 * j) + twiddle (4 * h) (2 * j) * fft (ou @ ov) ! (2 * j)"
      using fft_nth_lo[OF luv _ a(1)] h by (simp add: euv ouv)
    also have "\<dots> = fft Se ! j + twiddle (2 * h) j * fft So ! j"
      using True by (simp add: IHe IHo tw4)
    also have "\<dots> = fft S ! j"
      using fft_nth_lo[OF lS h True] by (simp add: Se So)
    finally have 1: "fft (u @ v) ! (2 * j) = fft S ! j" .
    have "fft (u @ v) ! (2 * j + 1)
        = fft (eu @ ev) ! (2 * j + 1) + twiddle (4 * h) (2 * j + 1) * fft (ou @ ov) ! (2 * j + 1)"
      using fft_nth_lo[OF luv _ a(2)] h by (simp add: euv ouv)
    also have "\<dots> = fft Ze ! j + twiddle (2 * h) j * (twiddle (4 * h) 1 * fft Zo ! j)"
      unfolding IHe(2)[OF True] IHo(2)[OF True] tw4(2) by (simp add: mult_ac)
    also have "\<dots> = fft Z ! j"
      using fft_nth_lo[OF lZ h True] True by (simp add: Ze Zo fft_scale lZo)
    finally have 2: "fft (u @ v) ! (2 * j + 1) = fft Z ! j" .
    from 1 2 show ?thesis by simp
  next
    case False
    define j' where "j' = j - h"
    have j': "j' < h" "j = h + j'" using False j by (simp_all add: j'_def)
    have a: "2 * j' < 2 * h" "2 * j' + 1 < 2 * h" using j' by simp_all
    have e: "2 * j = 2 * h + 2 * j'" "2 * j + 1 = 2 * h + (2 * j' + 1)" using j' by simp_all
    have "fft (u @ v) ! (2 * j) = fft (eu @ ev) ! (2 * j') - twiddle (4 * h) (2 * j') * fft (ou @ ov) ! (2 * j')"
      unfolding e using fft_nth_hi[OF luv _ a(1)] h by (simp add: euv ouv)
    also have "\<dots> = fft Se ! j' - twiddle (2 * h) j' * fft So ! j'"
      using j' by (simp add: IHe IHo tw4)
    also have "\<dots> = fft S ! j"
      unfolding j'(2) using fft_nth_hi[OF lS h j'(1)] by (simp add: Se So)
    finally have 1: "fft (u @ v) ! (2 * j) = fft S ! j" .
    have "fft (u @ v) ! (2 * j + 1)
        = fft (eu @ ev) ! (2 * j' + 1) - twiddle (4 * h) (2 * j' + 1) * fft (ou @ ov) ! (2 * j' + 1)"
      unfolding e using fft_nth_hi[OF luv _ a(2)] h by (simp add: euv ouv)
    also have "\<dots> = fft Ze ! j' - twiddle (2 * h) j' * (twiddle (4 * h) 1 * fft Zo ! j')"
      unfolding IHe(2)[OF j'(1)] IHo(2)[OF j'(1)] tw4(2) by (simp add: mult_ac)
    also have "\<dots> = fft Z ! j"
      unfolding j'(2) using fft_nth_hi[OF lZ h j'(1)] j' by (simp add: Ze Zo fft_scale lZo)
    finally have 2: "fft (u @ v) ! (2 * j + 1) = fft Z ! j" .
    from 1 2 show ?thesis by simp
  qed
  have "(2::nat) ^ Suc k = 2 * h" "(2::nat) ^ Suc (Suc k) = 4 * h" by (simp_all add: h_def)
  with goal show ?case by (simp only: S_def Z_def)
qed

lemma fft_cnj_fft:
  "length x = 2 ^ k \<Longrightarrow> fft (map cnj (fft x)) = map (\<lambda>v. 2 ^ k * cnj v) x"
proof (induction k arbitrary: x)
  case 0
  then obtain a where "x = [a]" by (auto simp add: length_Suc_conv)
  then show ?case by (simp add: fft_single)
next
  case (Suc k)
  define h :: nat where "h = 2 ^ k"
  have h: "0 < h" by (simp add: h_def)
  have lx: "length x = 2 * h" using Suc.prems by (simp add: h_def)
  define Ev Od where "Ev = fft (fft_even x)" and "Od = fft (fft_odd x)"
  have lEv: "length Ev = h" and lOd: "length Od = h"
    using lx by (simp_all add: Ev_def Od_def)
  define u where "u = map (\<lambda>i. cnj (Ev ! i + twiddle (2 * h) i * Od ! i)) [0..<h]"
  define v where "v = map (\<lambda>i. cnj (Ev ! i - twiddle (2 * h) i * Od ! i)) [0..<h]"
  have lu: "length u = 2 ^ k" and lv: "length v = 2 ^ k"
    by (simp_all add: u_def v_def h_def)
  have uv: "map cnj (fft x) = u @ v"
  proof (rule nth_equalityI)
    show "length (map cnj (fft x)) = length (u @ v)"
      using lx by (simp add: u_def v_def)
    fix n assume "n < length (map cnj (fft x))"
    then have n: "n < 2 * h" using lx by simp
    show "map cnj (fft x) ! n = (u @ v) ! n"
    proof (cases "n < h")
      case True
      then show ?thesis
        using fft_nth_lo[OF lx h True] n lx
        by (simp add: nth_append u_def Ev_def Od_def)
    next
      case False
      define n' where "n' = n - h"
      have n': "n' < h" "n = h + n'" using False n by (simp_all add: n'_def)
      show ?thesis
        unfolding n'(2) using fft_nth_hi[OF lx h n'(1)] n' lx
        by (simp add: nth_append u_def v_def Ev_def Od_def)
    qed
  qed
  have IHe: "fft (map cnj Ev) = map (\<lambda>v. 2 ^ k * cnj v) (fft_even x)"
    unfolding Ev_def using lx by (intro Suc.IH) (simp add: h_def)
  have IHo: "fft (map cnj Od) = map (\<lambda>v. 2 ^ k * cnj v) (fft_odd x)"
    unfolding Od_def using lx by (intro Suc.IH) (simp add: h_def)
  have sum: "map (\<lambda>i. u ! i + v ! i) [0..<2 ^ k] = map ((*) 2) (map cnj Ev)"
    by (rule nth_equalityI) (simp_all add: u_def v_def lEv h_def)
  have tw: "cnj (twiddle (2 * h) i) * twiddle (2 * h) i = 1" for i
    by (rule twiddle_cnj)
  have dif1: "(u ! i - v ! i) * twiddle (2 * h) i = 2 * cnj (Od ! i)" if "i < h" for i
  proof -
    have d0: "u ! i - v ! i = 2 * (cnj (twiddle (2 * h) i) * cnj (Od ! i))"
      using that by (simp add: u_def v_def)
    have "(u ! i - v ! i) * twiddle (2 * h) i
        = 2 * cnj (Od ! i) * (cnj (twiddle (2 * h) i) * twiddle (2 * h) i)"
      unfolding d0 by (simp only: mult_ac)
    also have "\<dots> = 2 * cnj (Od ! i)"
      unfolding tw by simp
    finally show ?thesis .
  qed
  have dif: "map (\<lambda>i. (u ! i - v ! i) * twiddle (2 ^ Suc k) i) [0..<2 ^ k] = map ((*) 2) (map cnj Od)"
    by (rule nth_equalityI) (simp_all add: lOd dif1 flip: h_def)
  show ?case
  proof (rule nth_equalityI)
    show "length (fft (map cnj (fft x))) = length (map (\<lambda>v. 2 ^ Suc k * cnj v) x)"
      by simp
    fix n assume "n < length (fft (map cnj (fft x)))"
    then have n: "n < 2 * h" using lx by simp
    define j where "j = n div 2"
    have j: "j < h" "j < 2 ^ k" using n by (simp_all add: j_def h_def)
    have je: "j < length x div 2" using j lx by simp
    note d = fft_dif[OF lu lv j(2), unfolded sum dif fft_scale IHe IHo]
    show "fft (map cnj (fft x)) ! n = map (\<lambda>v. 2 ^ Suc k * cnj v) x ! n"
    proof (cases "even n")
      case True
      then have "n = 2 * j" by (simp add: j_def)
      then show ?thesis
        using d je n lx by (simp add: uv fft_even_nth)
    next
      case False
      then have "n = 2 * j + 1" by (simp add: j_def)
      then show ?thesis
        using d je n lx by (simp add: uv fft_odd_nth)
    qed
  qed
qed

section \<open>The unit impulse and the GNU sort\<close>







lemma gnu_sort_ties_3: "std_sort_gnu [(1, 1), (2, 1), (3, 1)] = Some [(1, 1), (2, 1), (3, 1)]"
  by code_simp

lemma gnu_sort_impulse_8:
  "getDominantFrequencies gnu_sort \<lparr>ft_data = [1, 1, 1, 1, 1, 1, 1, 1], ft_n = 8\<rparr> 2
     = [(1, 1), (2, 1)]"
  using gnu_sort_ties_3 by (simp add: getDominantFrequencies_eq gnu_sort_def upt_rec)

section \<open>The claims\<close>

subsection \<open>C1: the three components add up to the original\<close>

text \<open>
  C1: for every non-empty sample sequence and every period of at least one,
  \<^verbatim>\<open>decompose\<close> returns (no division by a zero count, and the padding loop ends), the
  three result sequences have the length of the input, and at every index trend plus
  seasonal plus residual is the original sample. The equality is exact in the real-number
  model; whatever \<^verbatim>\<open>std::sort\<close> does plays no part in it.
\<close>

theorem C1_decompose_reconstruction:
  assumes "xs \<noteq> []" "1 \<le> p"
  shows "\<exists>sd. decompose srt (SeasonalDecomposition_new xs p) = Some (Inr sd)
           \<and> original sd = xs
           \<and> length (trend sd) = length xs
           \<and> length (seasonal sd) = length xs
           \<and> length (residual sd) = length xs
           \<and> (\<forall>i<length xs. trend sd ! i + seasonal sd ! i + residual sd ! i = original sd ! i)"
proof -
  let ?sd0 = "SeasonalDecomposition_new xs p"
  obtain tr where tr: "extractTrend ?sd0 = Inr (?sd0\<lparr>trend := tr\<rparr>)" "length tr = length (trend ?sd0)"
    using extractTrend_ok[of ?sd0] assms(2) by (auto simp add: SeasonalDecomposition_new_def)
  let ?sd1 = "?sd0\<lparr>trend := tr\<rparr>"
  obtain s where s: "extractSeasonal srt ?sd1 = Some (?sd1\<lparr>seasonal := s\<rparr>)"
      "length s = length (seasonal ?sd1)"
    using extractSeasonal_ok[of srt ?sd1] by auto
  let ?sd2 = "?sd1\<lparr>seasonal := s\<rparr>"
  have len: "length tr = length xs" "length s = length xs"
    using tr(2) s(2) by (simp_all add: SeasonalDecomposition_new_def)
  have o: "original ?sd2 = xs" "trend ?sd2 = tr" "seasonal ?sd2 = s"
      "length (residual ?sd2) = length (original ?sd2)"
    by (simp_all add: SeasonalDecomposition_new_def)
  have r: "extractResidual ?sd2 =
      ?sd2\<lparr>residual := map (\<lambda>i. xs ! i - tr ! i - s ! i) [0..<length xs]\<rparr>"
    using extractResidual_eq[OF o(4)] unfolding o(1,2,3) .
  have d: "decompose srt ?sd0 = Some (Inr (extractResidual ?sd2))"
    by (simp add: decompose_def tr(1) s(1))
  show ?thesis
    unfolding d r using len
    by (intro exI[of _ "?sd2\<lparr>residual := map (\<lambda>i. xs ! i - tr ! i - s ! i) [0..<length xs]\<rparr>"])
       (simp add: SeasonalDecomposition_new_def)
qed

theorem C1_decompose_reconstruction_witness:
  "[1, 2, 3 :: real] \<noteq> [] \<and> (1 :: int) \<le> 2
   \<and> (\<exists>sd. decompose (sort_key (\<lambda>p. - snd p)) (SeasonalDecomposition_new [1, 2, 3] 2) = Some (Inr sd)
           \<and> original sd = [1, 2, 3]
           \<and> trend sd ! 0 + seasonal sd ! 0 + residual sd ! 0 = 1
           \<and> trend sd ! 1 + seasonal sd ! 1 + residual sd ! 1 = 2
           \<and> trend sd ! 2 + seasonal sd ! 2 + residual sd ! 2 = 3)"
proof -
  have h: "[1, 2, 3 :: real] \<noteq> []" "(1 :: int) \<le> 2" by simp_all
  from C1_decompose_reconstruction[OF h, of "sort_key (\<lambda>p. - snd p)"]
  obtain sd where sd: "decompose (sort_key (\<lambda>p. - snd p)) (SeasonalDecomposition_new [1, 2, 3] 2) = Some (Inr sd)"
     "original sd = [1, 2, 3]"
     "\<forall>i<length [1, 2, 3 :: real]. trend sd ! i + seasonal sd ! i + residual sd ! i = original sd ! i"
    by blast
  from sd(3) have "trend sd ! 0 + seasonal sd ! 0 + residual sd ! 0 = original sd ! 0"
    "trend sd ! 1 + seasonal sd ! 1 + residual sd ! 1 = original sd ! 1"
    "trend sd ! 2 + seasonal sd ! 2 + residual sd ! 2 = original sd ! 2"
    by simp_all
  with sd(1,2) h show ?thesis by simp
qed

subsection \<open>C2: the dominant frequencies\<close>




subsection \<open>C3: padding to the next power of two\<close>

text \<open>
  C3: for every non-empty sample sequence, \<^verbatim>\<open>compute\<close> returns and leaves a buffer whose
  length is the smallest power of two that is at least the number of samples; the buffer
  is the transform of the samples (with zero imaginary parts) followed by zeros up to that
  length.
\<close>

theorem C3_compute_pads_to_power_of_two:
  assumes "input \<noteq> []"
  shows "\<exists>k ft. compute (FourierTransform_new input) = Some ft
           \<and> length (ft_data ft) = 2 ^ k
           \<and> length input \<le> 2 ^ k
           \<and> (\<forall>j. length input \<le> 2 ^ j \<longrightarrow> (2::nat) ^ k \<le> 2 ^ j)
           \<and> ft_data ft = fft (map (\<lambda>v. Complex v 0) input @ replicate (2 ^ k - length input) 0)"
proof -
  obtain m where m: "compute (FourierTransform_new input) =
         Some \<lparr>ft_data = fft (map (\<lambda>v. Complex v 0) input @ replicate (2 ^ m - length input) 0),
               ft_n = int (length input)\<rparr>"
       "length input \<le> 2 ^ m" "\<forall>j. length input \<le> 2 ^ j \<longrightarrow> m \<le> j"
    using compute_new[of input] by blast
  have "\<forall>j. length input \<le> 2 ^ j \<longrightarrow> (2::nat) ^ m \<le> 2 ^ j"
    using m(3) by (simp add: power_increasing)
  with m(1,2) show ?thesis
    by (intro exI[of _ m] exI[of _ "\<lparr>ft_data = fft (map (\<lambda>v. Complex v 0) input @ replicate (2 ^ m - length input) 0),
               ft_n = int (length input)\<rparr>"]) simp
qed

theorem C3_compute_pads_to_power_of_two_witness:
  "[1, 2, 3 :: real] \<noteq> []
   \<and> (\<exists>k ft. compute (FourierTransform_new [1, 2, 3]) = Some ft
           \<and> length (ft_data ft) = 2 ^ k
           \<and> length [1, 2, 3 :: real] \<le> 2 ^ k
           \<and> (\<forall>j. length [1, 2, 3 :: real] \<le> 2 ^ j \<longrightarrow> (2::nat) ^ k \<le> 2 ^ j)
           \<and> ft_data ft = fft (map (\<lambda>v. Complex v 0) [1, 2, 3] @ replicate (2 ^ k - length [1, 2, 3 :: real]) 0))"
proof -
  have h: "[1, 2, 3 :: real] \<noteq> []" by simp
  from C3_compute_pads_to_power_of_two[OF h] h show ?thesis by blast
qed

subsection \<open>C4: the inverse transform undoes the transform\<close>

text \<open>
  C4: for every complex buffer whose length is a power of two, \<^verbatim>\<open>ifft\<close> applied to the
  result of \<^verbatim>\<open>fft\<close> gives the buffer back, element for element. In the real-number
  model the equality is exact, and it holds with the constant \<open>PI\<close> as the source writes
  it.
\<close>

theorem C4_inverse_round_trip:
  assumes "length x = 2 ^ k"
  shows "ifft (fft x) = x"
proof -
  have "ifft (fft x) = map (\<lambda>v. cnj v / of_nat (length x)) (map (\<lambda>v. 2 ^ k * cnj v) x)"
    by (simp add: ifft_eq fft_cnj_fft[OF assms])
  also have "\<dots> = x"
    by (simp add: assms comp_def)
  finally show ?thesis .
qed

theorem C4_inverse_round_trip_witness:
  "length [1, 2, 3, 4 :: complex] = 2 ^ 2 \<and> ifft (fft [1, 2, 3, 4]) = [1, 2, 3, 4]"
  using C4_inverse_round_trip[of "[1, 2, 3, 4]" 2] by simp

subsection \<open>C5: the seasonal component has mean zero\<close>



subsection \<open>C6: a buffer whose length is not a power of two\<close>

text \<open>
  C6, as claimed: called directly on a buffer whose length is not a power of two,
  \<^verbatim>\<open>fft\<close> fails fast with an InvalidInput error. The source has no such check (and no
  \<^verbatim>\<open>throw\<close> at all): on the three samples \<open>1, 2, 3\<close> it returns \<open>3, -1, 3\<close>, the
  two-point transform of the first two samples followed by the untouched third.
\<close>

theorem C6_fft_length_three: "fft [1, 2, 3] = [3, - 1, 3]"
  by (subst fft.simps)
     (simp add: fft_even_eq fft_odd_eq fft_single list_eq_iff_nth_eq fft_combine_nth twiddle_0
        nth_Cons' less_Suc_eq)

text \<open>
  C6, amended: \<^verbatim>\<open>fft\<close> accepts a buffer of any length and returns a buffer of the same
  length; when the length is odd the last sample comes back unchanged.
\<close>

theorem C6_fft_any_length:
  "length (fft x) = length x
   \<and> (odd (length x) \<longrightarrow> fft x ! (length x - 1) = x ! (length x - 1))"
proof (intro conjI impI)
  show "length (fft x) = length x" by simp
  assume o: "odd (length x)"
  show "fft x ! (length x - 1) = x ! (length x - 1)"
  proof (cases "length x \<le> 1")
    case True then show ?thesis by (simp add: fft.simps)
  next
    case False
    have "length x div 2 + length x div 2 = length x - 1"
      using o by presburger
    with False show ?thesis
      by (subst fft.simps) (simp add: fft_combine_nth)
  qed
qed

theorem C6_fft_any_length_witness:
  "odd (length [1, 2, 3 :: complex])
   \<and> fft [1, 2, 3] ! (length [1, 2, 3 :: complex] - 1) = [1, 2, 3] ! (length [1, 2, 3 :: complex] - 1)"
proof -
  have o: "odd (length [1, 2, 3 :: complex])" by simp
  with C6_fft_any_length[of "[1, 2, 3]"] show ?thesis by blast
qed

subsection \<open>C7: a transform built from no samples\<close>

text \<open>
  C7, as claimed: constructing a \<^verbatim>\<open>FourierTransform\<close> from an empty sample sequence
  fails with an InvalidInput error and gives no usable object. The constructor checks
  nothing: the empty sequence gives the object with an empty buffer and \<open>n = 0\<close>, and
  \<^verbatim>\<open>compute\<close> on it returns with the one-element buffer \<open>[0]\<close>.
\<close>

theorem C7_empty_input_constructs:
  "FourierTransform_new [] = \<lparr>ft_data = [], ft_n = 0\<rparr>
   \<and> compute (FourierTransform_new []) = Some \<lparr>ft_data = [0], ft_n = 0\<rparr>"
proof -
  have "pad_loop 1 0 = Some 1" by (simp add: pad_loop.simps)
  then show ?thesis
    by (simp add: FourierTransform_new_eq compute_def Let_def fft_single flip: zero_complex.code)
qed

text \<open>
  C7, amended: construction succeeds for every sample sequence, the empty one included:
  the buffer holds the samples with zero imaginary parts, \<open>n\<close> is their number, and
  \<^verbatim>\<open>compute\<close> on the new object returns.
\<close>

theorem C7_constructor_total:
  "ft_data (FourierTransform_new input) = map (\<lambda>v. Complex v 0) input
   \<and> ft_n (FourierTransform_new input) = int (length input)
   \<and> (\<exists>ft. compute (FourierTransform_new input) = Some ft)"
  using compute_new[of input] by (auto simp add: FourierTransform_new_eq)

subsection \<open>C8: a decomposition with a period below one\<close>

text \<open>
  C8, as claimed: constructing a \<^verbatim>\<open>SeasonalDecomposition\<close> with a period below one
  fails with an InvalidInput error. The constructor stores the period unchecked: period
  \<open>0\<close> gives an object, and \<^verbatim>\<open>extractTrend\<close> on it returns (its window is the sample
  itself).
\<close>

theorem C8_period_zero_constructs:
  "SeasonalDecomposition_new [1, 2] 0 =
     \<lparr>original = [1, 2], trend = [0, 0], seasonal = [0, 0], residual = [0, 0], period = 0\<rparr>
   \<and> extractTrend (SeasonalDecomposition_new [1, 2] 0) =
     Inr \<lparr>original = [1, 2], trend = [1, 2], seasonal = [0, 0], residual = [0, 0], period = 0\<rparr>"
  by (simp add: SeasonalDecomposition_new_def numeral_2_eq_2 extractTrend_def trend_window_def
        fdiv_def upto_rec1 upt_rec Let_def)

text \<open>
  C8, amended: construction succeeds for every period, also below one: the object keeps
  the samples and the period as given, and its trend, seasonal and residual sequences have
  the length of the input and hold zeros.
\<close>

theorem C8_constructor_total:
  "original (SeasonalDecomposition_new xs p) = xs
   \<and> period (SeasonalDecomposition_new xs p) = p
   \<and> trend (SeasonalDecomposition_new xs p) = replicate (length xs) 0
   \<and> seasonal (SeasonalDecomposition_new xs p) = replicate (length xs) 0
   \<and> residual (SeasonalDecomposition_new xs p) = replicate (length xs) 0"
  by (simp add: SeasonalDecomposition_new_def)

subsection \<open>C9: the residual stage on a fresh object\<close>

text \<open>
  C9: a later stage called before its predecessors raises no error and works on the zero
  buffers of the constructor. \<^verbatim>\<open>extractResidual\<close> on a freshly constructed object
  leaves everything as it was except the residual, which becomes the original sequence;
  \<^verbatim>\<open>extractSeasonal\<close> on a fresh object returns as well, changing only the seasonal
  sequence.
\<close>

theorem C9_residual_on_fresh_object:
  "extractResidual (SeasonalDecomposition_new xs p) = (SeasonalDecomposition_new xs p)\<lparr>residual := xs\<rparr>
   \<and> (\<exists>s. extractSeasonal srt (SeasonalDecomposition_new xs p)
            = Some ((SeasonalDecomposition_new xs p)\<lparr>seasonal := s\<rparr>))"
proof -
  have "map (\<lambda>i. original (SeasonalDecomposition_new xs p) ! i
                - trend (SeasonalDecomposition_new xs p) ! i
                - seasonal (SeasonalDecomposition_new xs p) ! i) [0..<length xs] = xs"
    by (rule nth_equalityI) (simp_all add: SeasonalDecomposition_new_def)
  then have "extractResidual (SeasonalDecomposition_new xs p)
      = (SeasonalDecomposition_new xs p)\<lparr>residual := xs\<rparr>"
    by (subst extractResidual_eq) (simp_all add: SeasonalDecomposition_new_def)
  moreover have "\<exists>s. extractSeasonal srt (SeasonalDecomposition_new xs p)
            = Some ((SeasonalDecomposition_new xs p)\<lparr>seasonal := s\<rparr>)"
    using extractSeasonal_ok[of srt "SeasonalDecomposition_new xs p"] by blast
  ultimately show ?thesis by blast
qed

subsection \<open>C10: the moving-average window is never empty\<close>

text \<open>
  C10: for every non-empty sample sequence, every period of at least one and every index
  \<open>i\<close> of the sequence, the count of in-window samples at \<open>i\<close> is at least one, so the
  guarded division \<^verbatim>\<open>sum / count\<close> takes its normal branch and \<^verbatim>\<open>extractTrend\<close> returns
  without error.
\<close>

theorem C10_trend_count_positive:
  assumes "xs \<noteq> []" "1 \<le> p" "i < length xs"
  shows "1 \<le> snd (trend_window xs p i)
     \<and> (\<exists>q. fdiv (fst (trend_window xs p i)) (real_of_int (snd (trend_window xs p i))) = Inr q)
     \<and> (\<exists>sd. extractTrend (SeasonalDecomposition_new xs p) = Inr sd)"
proof -
  have c: "1 \<le> snd (trend_window xs p i)"
    using assms(2,3) by (rule trend_window_count_pos)
  then have "real_of_int (snd (trend_window xs p i)) \<noteq> 0" by simp
  then have "\<exists>q. fdiv (fst (trend_window xs p i)) (real_of_int (snd (trend_window xs p i))) = Inr q"
    by (simp add: fdiv_def)
  moreover have "\<exists>sd. extractTrend (SeasonalDecomposition_new xs p) = Inr sd"
    using extractTrend_ok[of "SeasonalDecomposition_new xs p"] assms(2)
    by (auto simp add: SeasonalDecomposition_new_def)
  ultimately show ?thesis using c by blast
qed

theorem C10_trend_count_positive_witness:
  "[1, 2, 3 :: real] \<noteq> [] \<and> (1 :: int) \<le> 2 \<and> (0 :: nat) < length [1, 2, 3 :: real]
   \<and> trend_window [1, 2, 3] 2 0 = (3, 2)
   \<and> 1 \<le> snd (trend_window [1, 2, 3] 2 0)
   \<and> (\<exists>sd. extractTrend (SeasonalDecomposition_new [1, 2, 3] 2) = Inr sd)"
proof -
  have e: "trend_window [1, 2, 3] 2 0 = (3, 2)"
    by (simp add: trend_window_def upto_rec1 Let_def signed_divide_int_def)
  have h: "[1, 2, 3 :: real] \<noteq> []" "(1 :: int) \<le> 2" "(0 :: nat) < length [1, 2, 3 :: real]"
    by simp_all
  from C10_trend_count_positive[OF h] e h show ?thesis by blast
qed

end
